theory Spec2Isabelle
  imports Main "HOL-Library.Multiset"
begin

section \<open>Data model (types.ts)\<close>

text \<open>
  \<^verbatim>\<open>changeType: 'add' | 'modify' | 'delete'\<close> is an enumeration; the template strings of
  the analyzer interpolate its literal, which \<open>changeTypeString\<close> gives back.
\<close>

datatype ChangeType = Add | Modify | Delete

fun changeTypeString :: "ChangeType \<Rightarrow> string" where
  "changeTypeString Add = ''add''"
| "changeTypeString Modify = ''modify''"
| "changeTypeString Delete = ''delete''"

text \<open>
  \<^verbatim>\<open>modifiedExports?: string[]\<close> is optional: \<open>None\<close> is the absent field. A JavaScript
  \<^verbatim>\<open>Set<string>\<close> iterates in insertion order, and \<^verbatim>\<open>Array.from\<close> reads it in that
  order, so \<open>specifiers\<close> and \<open>exports\<close> are lists.
\<close>

record FileChange =
  changedFile :: string
  changeType :: ChangeType
  modifiedExports :: "string list option"

record ImportInfo =
  source :: string
  specifiers :: "string list"

record FileCache =
  cache_imports :: "ImportInfo list"
  cache_exports :: "string list"

datatype FileType = Js | Asset

text \<open>
  The fields of a \<^verbatim>\<open>FileNode\<close> other than \<^verbatim>\<open>children\<close>. An optional field that was
  never assigned is \<open>None\<close>.
\<close>

record NodeInfo =
  nodeFile :: string
  nodeType :: FileType
  nodeImports :: "ImportInfo list option"
  nodeExports :: "string list option"
  isAffected :: "bool option"
  nodeChangeType :: "ChangeType option"
  reason :: "string option"

text \<open>
  A \<^verbatim>\<open>FileNode\<close> under construction: \<open>Pending p\<close> is the promise of a call
  \<^verbatim>\<open>buildDependencyTree(p, context)\<close> that a child closure has issued and that has not yet
  run its first statements; \<open>FileNode i cs\<close> is a node whose own fields are assigned.
\<close>

datatype FileNode =
    Pending string
  | FileNode (info: NodeInfo) (children: "FileNode list")

record AffectingImport =
  change :: FileChange
  importedSpecifiers :: "string list"

section \<open>Collaborators outside the analyzer\<close>

text \<open>
  \<^verbatim>\<open>utils\<close>, \<^verbatim>\<open>parser\<close>, \<^verbatim>\<open>fs\<close>, \<^verbatim>\<open>path\<close> and \<^verbatim>\<open>process\<close> are
  parameters. \<open>accessible\<close> lists the paths on which \<^verbatim>\<open>fs.access\<close> succeeds (a file system
  holds finitely many files and does not change during a run); \<open>parseFile p = None\<close> is a
  call of \<^verbatim>\<open>parseFile\<close> that throws; \<open>resolveImportPath f s r = None\<close> is the result
  \<^verbatim>\<open>null\<close>.
\<close>

record Env =
  accessible :: "string list"
  isJavaScriptFile :: "string \<Rightarrow> bool"
  shouldIgnoreFile :: "string \<Rightarrow> bool"
  resolveImportPath :: "string \<Rightarrow> string \<Rightarrow> string \<Rightarrow> string option"
  parseFile :: "string \<Rightarrow> FileCache option"
  basename :: "string \<Rightarrow> string"
  cwd :: string

definition access :: "Env \<Rightarrow> string \<Rightarrow> bool" where
  "access env p = (p \<in> set (accessible env))"

section \<open>determineAffectingChanges\<close>

text \<open>\<^verbatim>\<open>change.modifiedExports?.length\<close> is truthy when the array is present and not empty.\<close>

definition hasModifiedExports :: "FileChange \<Rightarrow> bool" where
  "hasModifiedExports c =
     (case modifiedExports c of None \<Rightarrow> False | Some ms \<Rightarrow> length ms \<noteq> 0)"

text \<open>\<^verbatim>\<open>change.modifiedExports?.includes(spec)\<close>, \<^verbatim>\<open>undefined\<close> being falsy.\<close>

definition modifiedExportsIncludes :: "FileChange \<Rightarrow> string \<Rightarrow> bool" where
  "modifiedExportsIncludes c spec =
     (case modifiedExports c of None \<Rightarrow> False | Some ms \<Rightarrow> spec \<in> set ms)"

text \<open>
  The callback of \<^verbatim>\<open>imports.forEach\<close> (lines 135-155): \<open>acc\<close> is the array
  \<^verbatim>\<open>affectingChanges\<close>, and \<^verbatim>\<open>push\<close> appends to it.
\<close>

definition forEachImport ::
  "Env \<Rightarrow> string \<Rightarrow> string \<Rightarrow> FileChange \<Rightarrow> AffectingImport list \<Rightarrow> ImportInfo
     \<Rightarrow> AffectingImport list" where
  "forEachImport env filePath rootDir c acc imp =
     (let resolvedSource = resolveImportPath env filePath (source imp) rootDir in
      if resolvedSource = Some (changedFile c) then
        if changeType c = Modify \<and> hasModifiedExports c then
          (let affectedSpecifiers = filter (modifiedExportsIncludes c) (specifiers imp) in
           if length affectedSpecifiers > 0
           then acc @ [\<lparr>change = c, importedSpecifiers = affectedSpecifiers\<rparr>]
           else acc)
        else acc @ [\<lparr>change = c, importedSpecifiers = specifiers imp\<rparr>]
      else acc)"

definition determineAffectingChanges ::
  "Env \<Rightarrow> string \<Rightarrow> FileChange list \<Rightarrow> ImportInfo list \<Rightarrow> string \<Rightarrow> AffectingImport list" where
  "determineAffectingChanges env filePath changes imps rootDir =
     foldl (\<lambda>acc c. foldl (forEachImport env filePath rootDir c) acc imps) [] changes"

section \<open>determineImpactReason\<close>

text \<open>\<^verbatim>\<open>Array.prototype.join\<close>.\<close>

fun join :: "string \<Rightarrow> string list \<Rightarrow> string" where
  "join sep [] = []"
| "join sep [x] = x"
| "join sep (x # y # ys) = x @ sep @ join sep (y # ys)"

definition newline :: string where
  "newline = [CHR 0x0A]"

text \<open>The body of the \<^verbatim>\<open>for\<close> loop (lines 168-190); \<open>reasons\<close> is the array pushed to.\<close>

definition pushReason :: "Env \<Rightarrow> string list \<Rightarrow> AffectingImport \<Rightarrow> string list" where
  "pushReason env reasons a =
     (let fileName = basename env (changedFile (change a)) in
      case changeType (change a) of
        Delete \<Rightarrow> reasons @ [''Imported file '' @ [CHR 0x27] @ fileName @ [CHR 0x27] @ '' was deleted'']
      | Add \<Rightarrow> reasons @ [''New file '' @ [CHR 0x27] @ fileName @ [CHR 0x27] @ '' was added that is imported'']
      | Modify \<Rightarrow>
          if hasModifiedExports (change a) \<and> length (importedSpecifiers a) > 0
          then reasons @ [''Modified exports from '' @ [CHR 0x27] @ fileName @ [CHR 0x27] @ '': ''
                            @ join '', '' (importedSpecifiers a)]
          else reasons @ [''File '' @ [CHR 0x27] @ fileName @ [CHR 0x27] @ '' content was modified''])"

definition determineImpactReason ::
  "Env \<Rightarrow> string \<Rightarrow> AffectingImport list \<Rightarrow> ImportInfo list \<Rightarrow> string" where
  "determineImpactReason env filePath affectingChanges imps =
     join newline (foldl (pushReason env) [] affectingChanges)"

section \<open>buildDependencyTree\<close>

definition emptyNode :: "string \<Rightarrow> FileType \<Rightarrow> NodeInfo" where
  "emptyNode filePath t =
     \<lparr>nodeFile = filePath, nodeType = t, nodeImports = None, nodeExports = None,
      isAffected = None, nodeChangeType = None, reason = None\<rparr>"

definition fileTypeOf :: "Env \<Rightarrow> string \<Rightarrow> FileType" where
  "fileTypeOf env filePath = (if isJavaScriptFile env filePath then Js else Asset)"

text \<open>The node returned at lines 37-41 when \<^verbatim>\<open>visited.has(filePath)\<close>.\<close>

definition stubNode :: "Env \<Rightarrow> string \<Rightarrow> FileNode" where
  "stubNode env filePath = FileNode (emptyNode filePath (fileTypeOf env filePath)) []"

text \<open>\<^verbatim>\<open>changes.find(c => c.changedFile === filePath)\<close>: the first match.\<close>

definition findChange :: "FileChange list \<Rightarrow> string \<Rightarrow> FileChange option" where
  "findChange changes filePath = List.find (\<lambda>c. changedFile c = filePath) changes"

text \<open>
  The closure mapped over \<^verbatim>\<open>imports\<close> (lines 80-92). It yields \<^verbatim>\<open>null\<close> (here
  \<open>None\<close>) when the resolved path is falsy (\<^verbatim>\<open>null\<close> or the empty string) or when
  \<^verbatim>\<open>fs.access\<close> rejects, and otherwise the promise of the recursive call.
\<close>

definition childPromise :: "Env \<Rightarrow> string \<Rightarrow> string \<Rightarrow> ImportInfo \<Rightarrow> FileNode option" where
  "childPromise env filePath rootDir imp =
     (case resolveImportPath env filePath (source imp) rootDir of
        None \<Rightarrow> None
      | Some resolvedPath \<Rightarrow>
          if resolvedPath = [] then None
          else if access env resolvedPath then Some (Pending resolvedPath)
          else None)"

text \<open>
  Lines 46-115: what one call does after \<^verbatim>\<open>visited.add(filePath)\<close>. The recursive calls
  are left as \<open>Pending\<close> children, in the order of \<^verbatim>\<open>imports\<close>, \<^verbatim>\<open>null\<close> filtered out
  (line 94).
\<close>

definition buildNode :: "Env \<Rightarrow> FileChange list \<Rightarrow> string \<Rightarrow> string \<Rightarrow> FileNode" where
  "buildNode env changes rootDir filePath =
     (if \<not> access env filePath then FileNode (emptyNode filePath Asset) []
      else
        let node0 = emptyNode filePath (fileTypeOf env filePath);
            node1 = (case findChange changes filePath of
                       None \<Rightarrow> node0
                     | Some c \<Rightarrow> node0\<lparr>nodeChangeType := Some (changeType c),
                                       reason := Some (''File was '' @ changeTypeString (changeType c) @ ''d'')\<rparr>)
        in
        if nodeType node1 = Js \<and> \<not> shouldIgnoreFile env filePath then
          (case parseFile env filePath of
             None \<Rightarrow> FileNode node1 []
           | Some parsed \<Rightarrow>
               let imps = cache_imports parsed;
                   node2 = node1\<lparr>nodeImports := Some imps, nodeExports := Some (cache_exports parsed)\<rparr>;
                   affectingChanges = determineAffectingChanges env filePath changes imps rootDir;
                   node3 = (if length affectingChanges > 0
                            then node2\<lparr>isAffected := Some True,
                                       reason := Some (determineImpactReason env filePath affectingChanges imps)\<rparr>
                            else node2)
               in FileNode node3 (List.map_filter (childPromise env filePath rootDir) imps))
        else if nodeType node1 = Asset then
          (case findChange changes filePath of
             None \<Rightarrow> FileNode node1 []
           | Some c \<Rightarrow>
               FileNode (node1\<lparr>isAffected := Some True,
                               reason := Some (''Asset file was '' @ changeTypeString (changeType c) @ ''d'')\<rparr>) [])
        else FileNode node1 [])"

text \<open>
  Lines 36-44 followed by the body: one call of \<^verbatim>\<open>buildDependencyTree\<close> on the shared
  \<^verbatim>\<open>visited\<close> set of \<^verbatim>\<open>context\<close>. The test and the \<^verbatim>\<open>add\<close> are not separated by
  an \<^verbatim>\<open>await\<close>, so no other call runs between them; nothing after them reads or writes
  shared state, so the body is taken as one step.
\<close>

definition buildDependencyTreeCall ::
  "Env \<Rightarrow> FileChange list \<Rightarrow> string \<Rightarrow> string set \<Rightarrow> string \<Rightarrow> string set \<times> FileNode" where
  "buildDependencyTreeCall env changes rootDir visited filePath =
     (if filePath \<in> visited then (visited, stubNode env filePath)
      else (insert filePath visited, buildNode env changes rootDir filePath))"

text \<open>
  The calls issued by \<^verbatim>\<open>imports.map(async ...)\<close> are awaited together by
  \<^verbatim>\<open>Promise.all\<close>: each starts when its own \<^verbatim>\<open>fs.access\<close> promise settles, so the
  calls of siblings, and of their descendants, interleave in an order the program does not
  fix. The order is a parameter: \<open>sched n\<close> chooses which of the pending calls, numbered
  from left to right in the tree, runs as the \<open>n\<close>-th one. A call is pending once its
  parent has run, so the schedules are the orders in which parents come before children.
  \<open>pendings\<close> lists the pending calls and \<open>settle k r\<close> puts the node \<open>r\<close> in the
  place of the \<open>k\<close>-th one; \<^verbatim>\<open>children\<close> keeps the order of \<^verbatim>\<open>imports\<close> whatever the
  order of the calls, as the array of \<^verbatim>\<open>Promise.all\<close> does.
\<close>

fun pendings :: "FileNode \<Rightarrow> string list" where
  "pendings (Pending p) = [p]"
| "pendings (FileNode i cs) = concat (map pendings cs)"

fun settle :: "nat \<Rightarrow> FileNode \<Rightarrow> FileNode \<Rightarrow> FileNode"
  and settleList :: "nat \<Rightarrow> FileNode \<Rightarrow> FileNode list \<Rightarrow> FileNode list" where
  "settle k r (Pending p) = (if k = 0 then r else Pending p)"
| "settle k r (FileNode i cs) = FileNode i (settleList k r cs)"
| "settleList k r [] = []"
| "settleList k r (c # cs) =
     (if k < length (pendings c) then settle k r c # cs
      else c # settleList (k - length (pendings c)) r cs)"

lemma pendings_settle:
  "k < length (pendings t) \<Longrightarrow>
     pendings (settle k r t) = take k (pendings t) @ pendings r @ drop (Suc k) (pendings t)"
  and pendings_settleList:
  "k < length (concat (map pendings cs)) \<Longrightarrow>
     concat (map pendings (settleList k r cs)) =
       take k (concat (map pendings cs)) @ pendings r @ drop (Suc k) (concat (map pendings cs))"
proof (induction k r t and k r cs rule: settle_settleList.induct)
  case (1 k r p)
  then show ?case by simp
next
  case (2 k r i cs)
  then show ?case by simp
next
  case (3 k r)
  then show ?case by simp
next
  case (4 k r c cs)
  show ?case
  proof (cases "k < length (pendings c)")
    case True
    with 4 show ?thesis by simp
  next
    case False
    with 4 show ?thesis by (simp add: Suc_diff_le)
  qed
qed

lemma length_pendings_settle:
  "k < length (pendings t) \<Longrightarrow>
     length (pendings (settle k r t)) = length (pendings t) - 1 + length (pendings r)"
  by (simp add: pendings_settle)

lemma pendings_stubNode: "pendings (stubNode env p) = []"
  by (simp add: stubNode_def)

lemma pendings_buildNode_inaccessible:
  "\<not> access env p \<Longrightarrow> pendings (buildNode env changes rootDir p) = []"
  by (simp add: buildNode_def)

text \<open>
  A call of \<^verbatim>\<open>buildDependencyTree\<close> together with every call it issues, until no promise
  is pending: \<open>n\<close> counts the calls that have run, \<open>visited\<close> is the shared set of
  \<^verbatim>\<open>context\<close>.
\<close>

function buildDependencyTree ::
  "Env \<Rightarrow> (nat \<Rightarrow> nat) \<Rightarrow> FileChange list \<Rightarrow> string \<Rightarrow> nat \<Rightarrow> string set \<Rightarrow> FileNode \<Rightarrow> FileNode" where
  "buildDependencyTree env sched changes rootDir n visited t =
     (if pendings t = [] then t
      else
        let k = sched n mod length (pendings t);
            filePath = pendings t ! k;
            call = buildDependencyTreeCall env changes rootDir visited filePath
        in buildDependencyTree env sched changes rootDir (Suc n) (fst call) (settle k (snd call) t))"
  by pat_completeness auto

text \<open>
  Every call either marks an accessible file that was not yet visited, or settles a
  promise without issuing a new one; so the calls come to an end.
\<close>

termination
proof (relation "inv_image (less_than <*lex*> less_than)
    (\<lambda>(env, sched, changes, rootDir, n, visited, t).
       (card (set (accessible env) - visited), length (pendings t)))", goal_cases)
  case 1
  show ?case by (intro wf_inv_image wf_lex_prod wf_less_than)
next
  case (2 env sched changes rootDir n visited t k filePath call)
  have k: "k < length (pendings t)" using 2 by simp
  show ?case
  proof (cases "filePath \<in> visited")
    case True
    then have "call = (visited, stubNode env filePath)"
      using 2 by (simp add: buildDependencyTreeCall_def)
    then show ?thesis using k 2(1)
      by (simp add: length_pendings_settle pendings_stubNode)
  next
    case False
    then have c: "call = (insert filePath visited, buildNode env changes rootDir filePath)"
      using 2 by (simp add: buildDependencyTreeCall_def)
    show ?thesis
    proof (cases "access env filePath")
      case True
      then have "filePath \<in> set (accessible env) - visited"
        using False by (simp add: access_def)
      then have "card (set (accessible env) - insert filePath visited)
                   < card (set (accessible env) - visited)"
        by (metis Diff_insert card_Diff1_less finite_Diff finite_set)
      then show ?thesis using c by simp
    next
      case False
      then have "set (accessible env) - insert filePath visited = set (accessible env) - visited"
        by (auto simp: access_def)
      then show ?thesis using c k False 2(1)
        by (simp add: length_pendings_settle pendings_buildNode_inaccessible)
    qed
  qed
qed

declare buildDependencyTree.simps [simp del]

section \<open>analyzeProject\<close>

record AnalysisOptions =
  entryFile :: string
  changes :: "FileChange list"

text \<open>The \<^verbatim>\<open>Error\<close> thrown at line 22.\<close>

datatype error = FailedToAnalyzeProject

definition analyzeProject :: "Env \<Rightarrow> (nat \<Rightarrow> nat) \<Rightarrow> AnalysisOptions \<Rightarrow> error + FileNode" where
  "analyzeProject env sched options =
     (let rootDir = cwd env in
      if access env (entryFile options)
      then Inr (buildDependencyTree env sched (changes options) rootDir 0 {} (Pending (entryFile options)))
      else Inl FailedToAnalyzeProject)"

section \<open>Reading a tree\<close>

text \<open>The nodes of a tree, parents before children, children left to right.\<close>

fun nodes :: "FileNode \<Rightarrow> FileNode list" where
  "nodes (Pending p) = []"
| "nodes (FileNode i cs) = FileNode i cs # concat (map nodes cs)"

text \<open>The file a child stands for, whether its call has run or not.\<close>

fun promisedFile :: "FileNode \<Rightarrow> string" where
  "promisedFile (Pending p) = p"
| "promisedFile (FileNode i cs) = nodeFile i"

text \<open>
  What a node shows of itself: its own fields and the files of its children. Settling a
  pending child does not change it.
\<close>

definition view :: "FileNode \<Rightarrow> NodeInfo \<times> string list" where
  "view n = (info n, map promisedFile (children n))"

definition views :: "FileNode \<Rightarrow> (NodeInfo \<times> string list) multiset" where
  "views t = mset (map view (nodes t))"

section \<open>The classifier and the formatter, in the words of the specification\<close>

text \<open>
  What one import contributes for one change: nothing unless it resolves to the changed
  file; for a modification with a non-empty set of modified exports, the intersection of
  the import's specifiers with that set, when it is not empty; otherwise all the
  specifiers of the import.
\<close>

definition affectingEntry ::
  "Env \<Rightarrow> string \<Rightarrow> string \<Rightarrow> FileChange \<Rightarrow> ImportInfo \<Rightarrow> AffectingImport option" where
  "affectingEntry env filePath rootDir c imp =
     (if resolveImportPath env filePath (source imp) rootDir \<noteq> Some (changedFile c) then None
      else case modifiedExports c of
        Some (m # ms) \<Rightarrow>
          if changeType c = Modify then
            if set (specifiers imp) \<inter> set (m # ms) = {} then None
            else Some \<lparr>change = c,
                       importedSpecifiers = filter (\<lambda>s. s \<in> set (m # ms)) (specifiers imp)\<rparr>
          else Some \<lparr>change = c, importedSpecifiers = specifiers imp\<rparr>
      | _ \<Rightarrow> Some \<lparr>change = c, importedSpecifiers = specifiers imp\<rparr>)"

text \<open>The entries in encounter order: change by change, and import by import within.\<close>

definition classify ::
  "Env \<Rightarrow> string \<Rightarrow> string \<Rightarrow> FileChange list \<Rightarrow> ImportInfo list \<Rightarrow> AffectingImport list" where
  "classify env filePath rootDir chs imps =
     concat (map (\<lambda>c. List.map_filter (affectingEntry env filePath rootDir c) imps) chs)"

text \<open>
  The four templates. The third is for an entry of a modification that carries modified
  exports and that records at least one specifier; the fourth for any other modification.
\<close>

definition quoted :: "string \<Rightarrow> string" where
  "quoted s = [CHR 0x27] @ s @ [CHR 0x27]"

definition reasonLine :: "Env \<Rightarrow> AffectingImport \<Rightarrow> string" where
  "reasonLine env a =
     (case changeType (change a) of
        Delete \<Rightarrow> ''Imported file '' @ quoted (basename env (changedFile (change a))) @ '' was deleted''
      | Add \<Rightarrow> ''New file '' @ quoted (basename env (changedFile (change a)))
                 @ '' was added that is imported''
      | Modify \<Rightarrow>
          (case (modifiedExports (change a), importedSpecifiers a) of
             (Some (m # ms), s # ss) \<Rightarrow>
               ''Modified exports from '' @ quoted (basename env (changedFile (change a))) @ '': ''
               @ join '', '' (s # ss)
           | _ \<Rightarrow> ''File '' @ quoted (basename env (changedFile (change a))) @ '' content was modified''))"

section \<open>Children, in the words of the specification\<close>

text \<open>
  The path an import leads to: the one its specifier resolves to, when that is a path
  (not \<^verbatim>\<open>null\<close>, and not the empty string, which the test of line 82 takes for
  \<^verbatim>\<open>null\<close>) and the path is accessible.
\<close>

definition importTarget :: "Env \<Rightarrow> string \<Rightarrow> string \<Rightarrow> ImportInfo \<Rightarrow> string option" where
  "importTarget env filePath rootDir imp =
     (case resolveImportPath env filePath (source imp) rootDir of
        None \<Rightarrow> None
      | Some q \<Rightarrow> if q \<noteq> [] \<and> access env q then Some q else None)"

section \<open>Two schedules\<close>

text \<open>The schedule in which every call runs to its end before its next sibling starts.\<close>

definition depthFirst :: "nat \<Rightarrow> nat" where
  "depthFirst n = 0"


section \<open>Sample projects\<close>

text \<open>
  A project given as a table from accessible paths to what \<^verbatim>\<open>parseFile\<close> returns for
  them (\<open>None\<close>: the parser throws). A file is a JavaScript file when its name ends in
  \<open>.js\<close>, nothing is ignored, a specifier is the path it resolves to, except \<open>react\<close>,
  which does not resolve, and \<open>basename\<close> leaves the short paths of the samples as they
  are.
\<close>

definition sampleEnv :: "(string \<times> FileCache option) list \<Rightarrow> Env" where
  "sampleEnv table =
     \<lparr>accessible = map fst table,
      isJavaScriptFile = (\<lambda>p. drop (length p - 3) p = ''.js''),
      shouldIgnoreFile = (\<lambda>p. False),
      resolveImportPath = (\<lambda>f s r. if s = ''react'' then None else Some s),
      parseFile = (\<lambda>p. case map_of table p of Some (Some parsed) \<Rightarrow> Some parsed | _ \<Rightarrow> None),
      basename = (\<lambda>p. p),
      cwd = ''/''\<rparr>"

definition importing :: "string \<Rightarrow> string list \<Rightarrow> ImportInfo" where
  "importing s specs = \<lparr>source = s, specifiers = specs\<rparr>"

definition parsedAs :: "ImportInfo list \<Rightarrow> string list \<Rightarrow> FileCache option" where
  "parsedAs imps exps = Some \<lparr>cache_imports = imps, cache_exports = exps\<rparr>"

definition changed :: "string \<Rightarrow> ChangeType \<Rightarrow> string list option \<Rightarrow> FileChange" where
  "changed p k ms = \<lparr>changedFile = p, changeType = k, modifiedExports = ms\<rparr>"

definition parsedNode :: "string \<Rightarrow> ImportInfo list \<Rightarrow> string list \<Rightarrow> NodeInfo" where
  "parsedNode p imps exps = (emptyNode p Js)\<lparr>nodeImports := Some imps, nodeExports := Some exps\<rparr>"

text \<open>
  \<open>x.js\<close> exports \<open>foo\<close> and \<open>bar\<close>; \<open>y.js\<close> imports \<open>bar\<close> from it, \<open>z.js\<close>
  imports \<open>foo\<close>; \<open>main.js\<close> imports both, a package, an image and a file that does
  not exist; \<open>bad.js\<close> is a file the parser rejects.
\<close>

definition fineProject :: Env where
  "fineProject = sampleEnv
     [(''main.js'', parsedAs [importing ''y.js'' [''y''], importing ''react'' [''React''],
                             importing ''gone.js'' [''g''], importing ''logo.png'' [],
                             importing ''z.js'' [''z'']] []),
      (''x.js'', parsedAs [] [''foo'', ''bar'']),
      (''y.js'', parsedAs [importing ''x.js'' [''bar'']] [''y'']),
      (''z.js'', parsedAs [importing ''x.js'' [''foo'']] [''z'']),
      (''logo.png'', None),
      (''bad.js'', None)]"

text \<open>
  The tree of \<open>fineProject\<close> from \<open>main.js\<close> when \<open>x.js\<close> was modified in \<open>foo\<close>, under
  the depth-first schedule: \<open>x.js\<close> is entered through \<open>y.js\<close>, and \<open>z.js\<close> gets a
  stub for it.
\<close>

definition fineOptions :: AnalysisOptions where
  "fineOptions = \<lparr>entryFile = ''main.js'', changes = [changed ''x.js'' Modify (Some [''foo''])]\<rparr>"

definition fineTree :: FileNode where
  "fineTree =
     FileNode (parsedNode ''main.js''
                 [importing ''y.js'' [''y''], importing ''react'' [''React''],
                  importing ''gone.js'' [''g''], importing ''logo.png'' [],
                  importing ''z.js'' [''z'']] [])
       [FileNode (parsedNode ''y.js'' [importing ''x.js'' [''bar'']] [''y''])
          [FileNode ((parsedNode ''x.js'' [] [''foo'', ''bar''])
                       \<lparr>nodeChangeType := Some Modify, reason := Some ''File was modifyd''\<rparr>) []],
        FileNode (emptyNode ''logo.png'' Asset) [],
        FileNode ((parsedNode ''z.js'' [importing ''x.js'' [''foo'']] [''z''])
                    \<lparr>isAffected := Some True,
                     reason := Some (''Modified exports from '' @ quoted ''x.js'' @ '': foo'')\<rparr>)
          [FileNode (emptyNode ''x.js'' Js) []]]"





text \<open>A cycle: \<open>a.js\<close> imports \<open>b.js\<close>, which imports \<open>a.js\<close>.\<close>

definition cycleProject :: Env where
  "cycleProject = sampleEnv
     [(''a.js'', parsedAs [importing ''b.js'' [''b'']] [''a'']),
      (''b.js'', parsedAs [importing ''a.js'' [''a'']] [''b''])]"

definition cycleOptions :: AnalysisOptions where
  "cycleOptions = \<lparr>entryFile = ''a.js'', changes = []\<rparr>"

definition cycleTree :: FileNode where
  "cycleTree =
     FileNode (parsedNode ''a.js'' [importing ''b.js'' [''b'']] [''a''])
       [FileNode (parsedNode ''b.js'' [importing ''a.js'' [''a'']] [''b''])
          [FileNode (emptyNode ''a.js'' Js) []]]"











section \<open>The entries of determineAffectingChanges, in order\<close>

lemma forEachImport_acc:
  "forEachImport env f r c acc imp = acc @ forEachImport env f r c [] imp"
  by (simp add: forEachImport_def Let_def)

lemma foldl_forEachImport:
  "foldl (forEachImport env f r c) acc imps = acc @ concat (map (forEachImport env f r c []) imps)"
proof (induction imps arbitrary: acc)
  case Nil
  show ?case by simp
next
  case (Cons imp imps)
  show ?case
    by (simp add: Cons.IH [of "forEachImport env f r c acc imp"])
       (simp add: forEachImport_acc [of env f r c acc imp])
qed

lemma foldl_changes:
  "foldl (\<lambda>acc c. foldl (forEachImport env f r c) acc imps) acc chs =
     acc @ concat (map (\<lambda>c. concat (map (forEachImport env f r c []) imps)) chs)"
proof (induction chs arbitrary: acc)
  case Nil
  show ?case by simp
next
  case (Cons c chs)
  show ?case
    by (simp add: Cons.IH foldl_forEachImport [of env f r c acc imps])
qed

lemma determineAffectingChanges_concat:
  "determineAffectingChanges env f chs imps r =
     concat (map (\<lambda>c. concat (map (forEachImport env f r c []) imps)) chs)"
  by (simp add: determineAffectingChanges_def foldl_changes)

section \<open>What one call builds\<close>

lemma buildNode_parsed:
  assumes "access env p" and "isJavaScriptFile env p" and "\<not> shouldIgnoreFile env p"
    and "parseFile env p = Some parsed"
  shows "buildNode env chs r p =
     FileNode
       \<lparr>nodeFile = p, nodeType = Js,
        nodeImports = Some (cache_imports parsed), nodeExports = Some (cache_exports parsed),
        isAffected = (if determineAffectingChanges env p chs (cache_imports parsed) r = []
                      then None else Some True),
        nodeChangeType = map_option changeType (findChange chs p),
        reason =
          (if determineAffectingChanges env p chs (cache_imports parsed) r = []
           then map_option (\<lambda>c. ''File was '' @ changeTypeString (changeType c) @ ''d'')
                  (findChange chs p)
           else Some (determineImpactReason env p
                        (determineAffectingChanges env p chs (cache_imports parsed) r)
                        (cache_imports parsed)))\<rparr>
       (List.map_filter (childPromise env p r) (cache_imports parsed))"
  using assms
  by (simp add: buildNode_def Let_def emptyNode_def fileTypeOf_def split: option.splits)

lemma buildNode_unparsed:
  assumes "access env p" and "isJavaScriptFile env p"
    and "shouldIgnoreFile env p \<or> parseFile env p = None"
  shows "buildNode env chs r p =
     FileNode
       \<lparr>nodeFile = p, nodeType = Js, nodeImports = None, nodeExports = None,
        isAffected = None,
        nodeChangeType = map_option changeType (findChange chs p),
        reason = map_option (\<lambda>c. ''File was '' @ changeTypeString (changeType c) @ ''d'')
                   (findChange chs p)\<rparr> []"
  using assms
  by (auto simp: buildNode_def Let_def emptyNode_def fileTypeOf_def split: option.splits)

lemma buildNode_asset:
  assumes "access env p" and "\<not> isJavaScriptFile env p"
  shows "buildNode env chs r p =
     FileNode
       \<lparr>nodeFile = p, nodeType = Asset, nodeImports = None, nodeExports = None,
        isAffected = (if findChange chs p = None then None else Some True),
        nodeChangeType = map_option changeType (findChange chs p),
        reason = map_option (\<lambda>c. ''Asset file was '' @ changeTypeString (changeType c) @ ''d'')
                   (findChange chs p)\<rparr> []"
  using assms
  by (auto simp: buildNode_def Let_def emptyNode_def fileTypeOf_def split: option.splits)

lemma buildNode_inaccessible:
  "\<not> access env p \<Longrightarrow> buildNode env chs r p = FileNode (emptyNode p Asset) []"
  by (simp add: buildNode_def)

text \<open>The entries one fine-grained modification contributes.\<close>

lemma fine_entries:
  assumes "changeType c = Modify" and "modifiedExports c = Some ms" and "ms \<noteq> []"
  shows "concat (map (forEachImport env f r c []) imps) =
     map (\<lambda>imp. \<lparr>change = c, importedSpecifiers = filter (\<lambda>s. s \<in> set ms) (specifiers imp)\<rparr>)
       (filter (\<lambda>imp. resolveImportPath env f (source imp) r = Some (changedFile c)
                      \<and> set (specifiers imp) \<inter> set ms \<noteq> {}) imps)"
proof (induction imps)
  case Nil
  show ?case by simp
next
  case (Cons imp imps)
  have inc: "modifiedExportsIncludes c = (\<lambda>s. s \<in> set ms)"
    using assms(2) by (auto simp: modifiedExportsIncludes_def)
  have has: "hasModifiedExports c"
    using assms(2,3) by (simp add: hasModifiedExports_def)
  have empty: "(filter (\<lambda>s. s \<in> set ms) (specifiers imp) = []) = (set (specifiers imp) \<inter> set ms = {})"
    by (auto simp: filter_empty_conv)
  show ?case
    using Cons.IH assms(1) has empty
    by (simp add: forEachImport_def inc Let_def)
qed

section \<open>The loops against the specification\<close>


lemma forEachImport_entry:
  "forEachImport env f r c [] imp =
     (case affectingEntry env f r c imp of None \<Rightarrow> [] | Some e \<Rightarrow> [e])"
proof (cases "modifiedExports c")
  case None
  then show ?thesis
    by (simp add: forEachImport_def affectingEntry_def hasModifiedExports_def)
next
  case (Some ms)
  have inc: "modifiedExportsIncludes c = (\<lambda>s. s \<in> set ms)"
    using Some by (auto simp: modifiedExportsIncludes_def)
  have empty: "(filter (\<lambda>s. s \<in> set ms) xs = []) = (set xs \<inter> set ms = {})" for xs
    by (auto simp: filter_empty_conv)
  show ?thesis
  proof (cases ms)
    case Nil
    with Some show ?thesis
      by (simp add: forEachImport_def affectingEntry_def hasModifiedExports_def)
  next
    case (Cons m ms')
    with Some inc empty [of "specifiers imp"] show ?thesis
      by (simp add: forEachImport_def affectingEntry_def hasModifiedExports_def Let_def)
  qed
qed

lemma map_filter_concat:
  "List.map_filter g xs = concat (map (\<lambda>x. case g x of None \<Rightarrow> [] | Some e \<Rightarrow> [e]) xs)"
  by (induction xs) (auto simp: List.map_filter_simps split: option.splits)

lemma determineAffectingChanges_classify:
  "determineAffectingChanges env f chs imps r = classify env f r chs imps"
proof -
  have "forEachImport env f r c [] =
          (\<lambda>imp. case affectingEntry env f r c imp of None \<Rightarrow> [] | Some e \<Rightarrow> [e])" for c
    by (rule ext) (rule forEachImport_entry)
  then show ?thesis
    by (simp add: determineAffectingChanges_concat classify_def map_filter_concat)
qed

lemma foldl_pushReason:
  "foldl (pushReason env) acc as = acc @ map (reasonLine env) as"
proof (induction as arbitrary: acc)
  case Nil
  show ?case by simp
next
  case (Cons a as)
  have "pushReason env acc a = acc @ [reasonLine env a]"
    by (cases "changeType (change a)")
       (auto simp: pushReason_def reasonLine_def quoted_def hasModifiedExports_def
             split: option.splits list.splits)
  then show ?case by (simp add: Cons.IH)
qed

lemma determineImpactReason_lines:
  "determineImpactReason env f as imps = join newline (map (reasonLine env) as)"
  by (simp add: determineImpactReason_def foldl_pushReason)

lemma classify_empty:
  "(classify env f r chs imps = []) =
     (\<forall>c \<in> set chs. \<forall>imp \<in> set imps. affectingEntry env f r c imp = None)"
  by (auto simp: classify_def map_filter_concat split: option.splits)

lemma buildNode_cases:
  obtains (inaccessible) "\<not> access env p"
  | (asset) "access env p" "\<not> isJavaScriptFile env p"
  | (unparsed) "access env p" "isJavaScriptFile env p"
      "shouldIgnoreFile env p \<or> parseFile env p = None"
  | (parsed) parsed where "access env p" "isJavaScriptFile env p" "\<not> shouldIgnoreFile env p"
      "parseFile env p = Some parsed"
  by (cases "parseFile env p") auto


section \<open>The sample project, evaluated\<close>

lemma fineProject_parts:
  "accessible fineProject = [''main.js'', ''x.js'', ''y.js'', ''z.js'', ''logo.png'', ''bad.js'']"
  "isJavaScriptFile fineProject = (\<lambda>p. drop (length p - 3) p = ''.js'')"
  "shouldIgnoreFile fineProject = (\<lambda>p. False)"
  "resolveImportPath fineProject = (\<lambda>f s r. if s = ''react'' then None else Some s)"
  "basename fineProject = (\<lambda>p. p)"
  "cwd fineProject = ''/''"
  by (simp_all add: fineProject_def sampleEnv_def)

lemma fineProject_parse:
  "parseFile fineProject ''x.js'' = parsedAs [] [''foo'', ''bar'']"
  "parseFile fineProject ''y.js'' = parsedAs [importing ''x.js'' [''bar'']] [''y'']"
  "parseFile fineProject ''z.js'' = parsedAs [importing ''x.js'' [''foo'']] [''z'']"
  "parseFile fineProject ''logo.png'' = None"
  "parseFile fineProject ''bad.js'' = None"
  by (simp_all add: fineProject_def sampleEnv_def parsedAs_def)

section \<open>Settling a promise\<close>


lemma promisedFile_settle:
  "k < length (pendings t) \<Longrightarrow> promisedFile r = pendings t ! k \<Longrightarrow>
     promisedFile (settle k r t) = promisedFile t"
  by (cases t) auto

lemma views_FileNode:
  "views (FileNode i cs) = {#(i, map promisedFile cs)#} + (\<Sum>c\<leftarrow>cs. views c)"
proof -
  have "mset (map view (concat (map nodes ds))) = (\<Sum>c\<leftarrow>ds. views c)" for ds
    by (induction ds) (simp_all add: views_def)
  then show ?thesis by (simp add: views_def view_def)
qed

lemma views_settle:
  "k < length (pendings t) \<Longrightarrow> promisedFile r = pendings t ! k \<Longrightarrow>
     views (settle k r t) = views t + views r"
  and views_settleList:
  "k < length (concat (map pendings cs)) \<Longrightarrow> promisedFile r = concat (map pendings cs) ! k \<Longrightarrow>
     map promisedFile (settleList k r cs) = map promisedFile cs
     \<and> (\<Sum>c\<leftarrow>settleList k r cs. views c) = (\<Sum>c\<leftarrow>cs. views c) + views r"
proof (induction k r t and k r cs rule: settle_settleList.induct)
  case (1 k r p)
  then show ?case by (simp add: views_def)
next
  case (2 k r i cs)
  then have "map promisedFile (settleList k r cs) = map promisedFile cs"
    and "(\<Sum>c\<leftarrow>settleList k r cs. views c) = (\<Sum>c\<leftarrow>cs. views c) + views r"
    by simp_all
  moreover have "views (FileNode j ds) = {#(j, map promisedFile ds)#} + (\<Sum>c\<leftarrow>ds. views c)" for j ds
    by (simp add: views_FileNode)
  ultimately show ?case by simp
next
  case (3 k r)
  then show ?case by simp
next
  case (4 k r c cs)
  show ?case
  proof (cases "k < length (pendings c)")
    case True
    with 4 show ?thesis by (simp add: nth_append promisedFile_settle)
  next
    case False
    with 4 show ?thesis by (simp add: nth_append)
  qed
qed

lemma pendings_buildDependencyTree:
  "pendings (buildDependencyTree env sched chs r n visited t) = []"
proof (induction env sched chs r n visited t rule: buildDependencyTree.induct)
  case (1 env sched chs r n visited t)
  show ?case
  proof (cases "pendings t = []")
    case True
    then show ?thesis by (simp add: buildDependencyTree.simps)
  next
    case False
    with 1 show ?thesis
      by (subst buildDependencyTree.simps) (simp add: Let_def)
  qed
qed

lemma promisedFile_call:
  "promisedFile (snd (buildDependencyTreeCall env chs r visited p)) = p"
  by (cases env p rule: buildNode_cases)
     (simp_all add: buildDependencyTreeCall_def stubNode_def emptyNode_def buildNode_inaccessible
        buildNode_asset buildNode_unparsed buildNode_parsed)

text \<open>An invariant of the shared set and the tree is kept by every call, hence by the whole run.\<close>

lemma buildDependencyTree_invariant:
  assumes "I visited (views t) (set (pendings t))"
    and step: "\<And>visited vs ps p call. I visited vs ps \<Longrightarrow> p \<in> ps \<Longrightarrow>
        call = buildDependencyTreeCall env chs r visited p \<Longrightarrow>
        I (fst call) (vs + views (snd call)) (ps \<union> set (pendings (snd call)))"
    and mono: "\<And>visited vs ps qs. I visited vs ps \<Longrightarrow> qs \<subseteq> ps \<Longrightarrow> I visited vs qs"
  shows "\<exists>visited'. I visited' (views (buildDependencyTree env sched chs r n visited t)) {}"
  using assms
proof (induction env sched chs r n visited t rule: buildDependencyTree.induct)
  case (1 env sched chs r n visited t)
  note step = "1.prems"(2) and mono = "1.prems"(3)
  show ?case
  proof (cases "pendings t = []")
    case True
    with "1.prems"(1) show ?thesis by (auto simp: buildDependencyTree.simps)
  next
    case False
    define k where "k = sched n mod length (pendings t)"
    define p where "p = pendings t ! k"
    define call where "call = buildDependencyTreeCall env chs r visited p"
    have k: "k < length (pendings t)" using False by (simp add: k_def)
    then have p: "p \<in> set (pendings t)" by (simp add: p_def)
    have target: "promisedFile (snd call) = pendings t ! k"
      by (simp add: call_def promisedFile_call p_def)
    have "I (fst call) (views t + views (snd call)) (set (pendings t) \<union> set (pendings (snd call)))"
      using "1.prems"(1) p call_def by (rule step)
    moreover have "set (pendings (settle k (snd call) t)) \<subseteq> set (pendings t) \<union> set (pendings (snd call))"
      using k by (auto simp: pendings_settle dest: in_set_takeD in_set_dropD)
    ultimately have "I (fst call) (views (settle k (snd call) t)) (set (pendings (settle k (snd call) t)))"
      using views_settle [OF k target] mono by simp
    then have "\<exists>visited'. I visited' (views (buildDependencyTree env sched chs r (Suc n) (fst call)
                  (settle k (snd call) t))) {}"
      using False k_def p_def call_def step mono by (intro "1.IH") simp_all
    moreover have "buildDependencyTree env sched chs r n visited t =
        buildDependencyTree env sched chs r (Suc n) (fst call) (settle k (snd call) t)"
      using False by (subst buildDependencyTree.simps) (simp add: Let_def k_def p_def call_def)
    ultimately show ?thesis by simp
  qed
qed

section \<open>Invariants of a run\<close>


lemma childPromise_Pending:
  "childPromise env p r imp = Some c \<Longrightarrow> \<exists>q. c = Pending q \<and> q \<noteq> [] \<and> access env q"
  by (auto simp: childPromise_def split: option.splits if_splits)

lemma nodes_childPromises:
  "concat (map nodes (List.map_filter (childPromise env p r) imps)) = []"
  by (induction imps)
     (auto simp: List.map_filter_simps split: option.splits dest: childPromise_Pending)

lemma pendings_childPromises:
  "x \<in> set (List.map_filter (childPromise env p r) imps) \<Longrightarrow> q \<in> set (pendings x) \<Longrightarrow>
     access env q"
  by (induction imps)
     (auto simp: List.map_filter_simps split: option.splits dest: childPromise_Pending)

lemma nodes_buildNode:
  "nodes (buildNode env chs r p) = [buildNode env chs r p]"
  by (cases env p rule: buildNode_cases)
     (simp_all add: buildNode_inaccessible buildNode_asset buildNode_unparsed buildNode_parsed
        nodes_childPromises)

lemma views_call:
  "views (snd (buildDependencyTreeCall env chs r visited p)) =
     {#view (snd (buildDependencyTreeCall env chs r visited p))#}"
  by (simp add: views_def buildDependencyTreeCall_def nodes_buildNode stubNode_def)

lemma pendings_call_accessible:
  "q \<in> set (pendings (snd (buildDependencyTreeCall env chs r visited p))) \<Longrightarrow> access env q"
  by (cases env p rule: buildNode_cases)
     (auto simp: buildDependencyTreeCall_def stubNode_def buildNode_inaccessible buildNode_asset
        buildNode_unparsed buildNode_parsed split: if_splits dest: pendings_childPromises)

lemma views_Pending: "views (Pending p) = {#}"
  by (simp add: views_def)

text \<open>
  A property of single nodes that every call establishes for the node it returns, given
  that the file is accessible, holds for every node of the tree.
\<close>

lemma every_node:
  assumes "access env entry"
    and call: "\<And>visited p. access env p \<Longrightarrow> Q (view (snd (buildDependencyTreeCall env chs r visited p)))"
    and "n \<in> set (nodes (buildDependencyTree env sched chs r k {} (Pending entry)))"
  shows "Q (view n)"
proof -
  define I :: "string set \<Rightarrow> (NodeInfo \<times> string list) multiset \<Rightarrow> string set \<Rightarrow> bool"
    where "I = (\<lambda>visited vs ps. (\<forall>v \<in># vs. Q v) \<and> (\<forall>p \<in> ps. access env p))"
  have "\<exists>visited'. I visited' (views (buildDependencyTree env sched chs r k {} (Pending entry))) {}"
  proof (rule buildDependencyTree_invariant)
    show "I {} (views (Pending entry)) (set (pendings (Pending entry)))"
      using assms(1) by (simp add: I_def views_Pending)
  next
    fix visited vs ps p c
    assume "I visited vs ps" "p \<in> ps" "c = buildDependencyTreeCall env chs r visited p"
    then show "I (fst c) (vs + views (snd c)) (ps \<union> set (pendings (snd c)))"
      using call [of p visited] pendings_call_accessible [of _ env chs r visited p]
      by (auto simp: I_def views_call)
  next
    fix visited vs ps qs
    assume "I visited vs ps" "qs \<subseteq> ps"
    then show "I visited vs qs" by (auto simp: I_def)
  qed
  then have "\<forall>v \<in># views (buildDependencyTree env sched chs r k {} (Pending entry)). Q v"
    by (simp add: I_def)
  with assms(3) show ?thesis by (simp add: views_def)
qed

lemma settled_children:
  "pendings t = [] \<Longrightarrow> n \<in> set (nodes t) \<Longrightarrow> c \<in> set (children n) \<Longrightarrow>
     \<exists>i cs. c = FileNode i cs"
proof (induction t arbitrary: n)
  case (Pending p)
  then show ?case by simp
next
  case (FileNode i cs)
  show ?case
  proof (cases "n = FileNode i cs")
    case True
    with FileNode.prems show ?thesis by (cases c) auto
  next
    case False
    with FileNode.prems obtain d where "d \<in> set cs" "n \<in> set (nodes d)" by auto
    with FileNode.IH [of d n] FileNode.prems show ?thesis by auto
  qed
qed

section \<open>Running the sample project\<close>


lemma buildDependencyTree_done:
  "pendings t = [] \<Longrightarrow> buildDependencyTree env sched chs r n visited t = t"
  by (simp add: buildDependencyTree.simps)

lemma buildDependencyTree_next:
  "pendings t \<noteq> [] \<Longrightarrow>
     buildDependencyTree env sched chs r n visited t =
       buildDependencyTree env sched chs r (Suc n)
         (fst (buildDependencyTreeCall env chs r visited
                 (pendings t ! (sched n mod length (pendings t)))))
         (settle (sched n mod length (pendings t))
            (snd (buildDependencyTreeCall env chs r visited
                    (pendings t ! (sched n mod length (pendings t))))) t)"
  by (subst buildDependencyTree.simps) (simp add: Let_def)

lemma fineProject_parse_main:
  "parseFile fineProject ''main.js'' =
     parsedAs [importing ''y.js'' [''y''], importing ''react'' [''React''],
               importing ''gone.js'' [''g''], importing ''logo.png'' [],
               importing ''z.js'' [''z'']] []"
  by (simp add: fineProject_def sampleEnv_def parsedAs_def)

lemma fineProject_nodes:
  "buildNode fineProject (changes fineOptions) ''/'' ''main.js'' =
     FileNode (parsedNode ''main.js''
                 [importing ''y.js'' [''y''], importing ''react'' [''React''],
                  importing ''gone.js'' [''g''], importing ''logo.png'' [],
                  importing ''z.js'' [''z'']] [])
       [Pending ''y.js'', Pending ''logo.png'', Pending ''z.js'']"
  "buildNode fineProject (changes fineOptions) ''/'' ''y.js'' =
     FileNode (parsedNode ''y.js'' [importing ''x.js'' [''bar'']] [''y'']) [Pending ''x.js'']"
  "buildNode fineProject (changes fineOptions) ''/'' ''x.js'' =
     FileNode ((parsedNode ''x.js'' [] [''foo'', ''bar''])
                 \<lparr>nodeChangeType := Some Modify, reason := Some ''File was modifyd''\<rparr>) []"
  "buildNode fineProject (changes fineOptions) ''/'' ''logo.png'' =
     FileNode (emptyNode ''logo.png'' Asset) []"
  "buildNode fineProject (changes fineOptions) ''/'' ''z.js'' =
     FileNode ((parsedNode ''z.js'' [importing ''x.js'' [''foo'']] [''z''])
                 \<lparr>isAffected := Some True,
                  reason := Some (''Modified exports from '' @ quoted ''x.js'' @ '': foo'')\<rparr>)
       [Pending ''x.js'']"
  by (simp_all add: buildNode_def access_def fineProject_parts fineProject_parse
        fineProject_parse_main parsedAs_def fineOptions_def findChange_def changed_def
        fileTypeOf_def parsedNode_def emptyNode_def importing_def childPromise_def
        determineAffectingChanges_def forEachImport_def hasModifiedExports_def
        modifiedExportsIncludes_def determineImpactReason_def pushReason_def quoted_def Let_def)

lemma fineProject_tree:
  "analyzeProject fineProject depthFirst fineOptions = Inr fineTree"
proof -
  have entry: "entryFile fineOptions = ''main.js''"
    by (simp add: fineOptions_def)
  have stub: "stubNode fineProject ''x.js'' = FileNode (emptyNode ''x.js'' Js) []"
    by (simp add: stubNode_def fileTypeOf_def fineProject_parts)
  show ?thesis
    unfolding analyzeProject_def entry
    by (simp add: access_def fineProject_parts buildDependencyTree_next buildDependencyTree_done
          buildDependencyTreeCall_def fineProject_nodes [unfolded fineProject_parts] stub depthFirst_def fineTree_def)
qed

section \<open>Every node of the result\<close>

lemma analyzeProject_Inr:
  "analyzeProject env sched options = Inr t \<Longrightarrow>
     access env (entryFile options)
     \<and> t = buildDependencyTree env sched (changes options) (cwd env) 0 {} (Pending (entryFile options))"
  by (auto simp: analyzeProject_def Let_def split: if_splits)

lemma isAffected_call:
  "isAffected (info (snd (buildDependencyTreeCall env chs r visited p))) \<noteq> Some False"
  by (cases env p rule: buildNode_cases)
     (simp_all add: buildDependencyTreeCall_def stubNode_def emptyNode_def buildNode_inaccessible
        buildNode_asset buildNode_unparsed buildNode_parsed)

lemma promised_children:
  "map promisedFile (List.map_filter (childPromise env p r) imps) =
     List.map_filter (importTarget env p r) imps"
  by (induction imps)
     (auto simp: childPromise_def importTarget_def split: option.splits)

lemma children_call:
  "snd (view (snd (buildDependencyTreeCall env chs r visited p))) =
     (case nodeImports (fst (view (snd (buildDependencyTreeCall env chs r visited p)))) of
        None \<Rightarrow> []
      | Some imps \<Rightarrow>
          List.map_filter
            (importTarget env (nodeFile (fst (view (snd (buildDependencyTreeCall env chs r visited p))))) r)
            imps)"
  by (cases env p rule: buildNode_cases)
     (simp_all add: view_def buildDependencyTreeCall_def stubNode_def emptyNode_def
        buildNode_inaccessible buildNode_asset buildNode_unparsed buildNode_parsed
        promised_children)

lemma nodes_self: "FileNode i cs \<in> set (nodes (FileNode i cs))"
  by simp

lemma nodes_child:
  "n \<in> set (nodes t) \<Longrightarrow> FileNode i cs \<in> set (children n) \<Longrightarrow> FileNode i cs \<in> set (nodes t)"
proof (induction t arbitrary: n)
  case (Pending p)
  then show ?case by simp
next
  case (FileNode j ds)
  show ?case
  proof (cases "n = FileNode j ds")
    case True
    with FileNode.prems(2) have "FileNode i cs \<in> set ds" by simp
    then have "FileNode i cs \<in> set (concat (map nodes ds))"
      using nodes_self [of i cs] by (auto simp del: nodes.simps)
    then show ?thesis by simp
  next
    case False
    with FileNode.prems obtain d where "d \<in> set ds" "n \<in> set (nodes d)" by auto
    with FileNode.IH [of d n] FileNode.prems(2) show ?thesis by auto
  qed
qed

section \<open>The root, and the nodes of one file\<close>

lemma promisedFile_buildDependencyTree:
  "promisedFile (buildDependencyTree env sched chs r n visited t) = promisedFile t"
proof (induction env sched chs r n visited t rule: buildDependencyTree.induct)
  case (1 env sched chs r n visited t)
  show ?case
  proof (cases "pendings t = []")
    case True
    then show ?thesis by (simp add: buildDependencyTree_done)
  next
    case False
    then have k: "sched n mod length (pendings t) < length (pendings t)" by simp
    show ?thesis
      using False "1.IH" [OF False refl refl refl]
      by (simp add: buildDependencyTree_next promisedFile_settle [OF k] promisedFile_call)
  qed
qed

lemma settled_root:
  "pendings t = [] \<Longrightarrow> \<exists>i cs. t = FileNode i cs \<and> nodeFile i = promisedFile t"
  by (cases t) auto

lemma nodes_are_nodes: "n \<in> set (nodes t) \<Longrightarrow> \<exists>i cs. n = FileNode i cs"
  by (induction t arbitrary: n) auto

lemma view_eq_stub:
  "n \<in> set (nodes t) \<Longrightarrow> (n = stubNode env f) = (view n = view (stubNode env f))"
  by (auto simp: view_def stubNode_def dest!: nodes_are_nodes)

lemma nodeFile_call:
  "nodeFile (fst (view (snd (buildDependencyTreeCall env chs r visited p)))) = p"
  using promisedFile_call [of env chs r visited p]
  by (cases "snd (buildDependencyTreeCall env chs r visited p)")
     (auto simp: view_def buildDependencyTreeCall_def stubNode_def buildNode_def Let_def
        split: if_splits option.splits)

lemma nodeType_call:
  "access env p \<Longrightarrow>
     nodeType (fst (view (snd (buildDependencyTreeCall env chs r visited p)))) = fileTypeOf env p"
  by (cases env p rule: buildNode_cases)
     (simp_all add: view_def buildDependencyTreeCall_def stubNode_def emptyNode_def fileTypeOf_def
        buildNode_asset buildNode_unparsed buildNode_parsed)

text \<open>
  Every node is of a file that is marked visited, and of the nodes of one file at most one
  is not the stub.
\<close>

lemma one_full_node:
  "\<exists>visited'.
     (\<forall>v \<in># views (buildDependencyTree env sched chs r n {} (Pending entry)). nodeFile (fst v) \<in> visited')
     \<and> (\<forall>f. size (filter_mset (\<lambda>v. nodeFile (fst v) = f \<and> v \<noteq> view (stubNode env f))
                   (views (buildDependencyTree env sched chs r n {} (Pending entry)))) \<le> 1)"
proof -
  define I :: "string set \<Rightarrow> (NodeInfo \<times> string list) multiset \<Rightarrow> string set \<Rightarrow> bool"
    where "I = (\<lambda>visited vs ps. (\<forall>v \<in># vs. nodeFile (fst v) \<in> visited)
             \<and> (\<forall>f. size (filter_mset (\<lambda>v. nodeFile (fst v) = f \<and> v \<noteq> view (stubNode env f)) vs) \<le> 1))"
  have "\<exists>visited'. I visited' (views (buildDependencyTree env sched chs r n {} (Pending entry))) {}"
  proof (rule buildDependencyTree_invariant)
    show "I {} (views (Pending entry)) (set (pendings (Pending entry)))"
      by (simp add: I_def views_Pending)
  next
    fix visited vs ps p c
    assume inv: "I visited vs ps" and c: "c = buildDependencyTreeCall env chs r visited p"
    let ?full = "\<lambda>f v. nodeFile (fst v) = f \<and> v \<noteq> view (stubNode env f)"
    have vs: "views (snd c) = {#view (snd c)#}" and name: "nodeFile (fst (view (snd c))) = p"
      by (simp_all add: c views_call nodeFile_call)
    show "I (fst c) (vs + views (snd c)) (ps \<union> set (pendings (snd c)))"
    proof (cases "p \<in> visited")
      case True
      then have "fst c = visited" "view (snd c) = view (stubNode env p)"
        by (simp_all add: c buildDependencyTreeCall_def)
      then show ?thesis using inv True name by (auto simp: I_def vs)
    next
      case False
      then have marked: "fst c = insert p visited"
        by (simp add: c buildDependencyTreeCall_def)
      have "filter_mset (?full p) vs = {#}"
        using inv False by (auto simp: I_def)
      then have "size (filter_mset (?full f) (vs + views (snd c))) \<le> 1" for f
        using inv name by (cases "f = p") (auto simp: I_def vs)
      then show ?thesis using inv name by (auto simp: I_def vs marked)
    qed
  next
    fix visited vs ps qs
    assume "I visited vs ps" "qs \<subseteq> ps"
    then show "I visited vs qs" by (simp add: I_def)
  qed
  then show ?thesis by (simp add: I_def)
qed

section \<open>Running the cycle\<close>

lemma cycleProject_parts:
  "accessible cycleProject = [''a.js'', ''b.js'']"
  "isJavaScriptFile cycleProject = (\<lambda>p. drop (length p - 3) p = ''.js'')"
  "shouldIgnoreFile cycleProject = (\<lambda>p. False)"
  "resolveImportPath cycleProject = (\<lambda>f s r. if s = ''react'' then None else Some s)"
  "cwd cycleProject = ''/''"
  "parseFile cycleProject ''a.js'' = parsedAs [importing ''b.js'' [''b'']] [''a'']"
  "parseFile cycleProject ''b.js'' = parsedAs [importing ''a.js'' [''a'']] [''b'']"
  by (simp_all add: cycleProject_def sampleEnv_def parsedAs_def)

lemma cycleProject_nodes:
  "buildNode cycleProject [] ''/'' ''a.js'' =
     FileNode (parsedNode ''a.js'' [importing ''b.js'' [''b'']] [''a'']) [Pending ''b.js'']"
  "buildNode cycleProject [] ''/'' ''b.js'' =
     FileNode (parsedNode ''b.js'' [importing ''a.js'' [''a'']] [''b'']) [Pending ''a.js'']"
  "stubNode cycleProject ''a.js'' = FileNode (emptyNode ''a.js'' Js) []"
  by (simp_all add: buildNode_def stubNode_def access_def cycleProject_parts parsedAs_def
        findChange_def fileTypeOf_def parsedNode_def emptyNode_def importing_def childPromise_def
        determineAffectingChanges_def Let_def)

text \<open>On the cycle one call is pending at a time, so every schedule gives the same tree.\<close>

lemma cycleProject_tree:
  "analyzeProject cycleProject sched cycleOptions = Inr cycleTree"
  by (simp add: analyzeProject_def cycleOptions_def access_def cycleProject_parts
        buildDependencyTree_next buildDependencyTree_done buildDependencyTreeCall_def
        cycleProject_nodes cycleTree_def)

section \<open>Running the diamond under every schedule\<close>

























section \<open>The reason of an affected code node\<close>





section \<open>Properties of the analyzer\<close>




text \<open>
  C2. For a modification that carries a non-empty list of modified exports, the entries of
  \<open>determineAffectingChanges\<close> are, in import order, those of the imports that resolve to
  the changed file and whose specifiers meet the modified exports, each recording exactly
  the specifiers in that intersection. So a parsed file is marked affected by such a
  change exactly when one of its imports is of that kind; with \<open>modifiedExports = [foo]\<close>,
  a file that imports only \<open>bar\<close> from the changed file is not marked, and one that imports
  \<open>foo\<close> is marked with a reason that ends in \<open>foo\<close>.
\<close>

theorem fine_grained_modify:
  assumes "changeType c = Modify" and "modifiedExports c = Some ms" and "ms \<noteq> []"
  shows "determineAffectingChanges env filePath [c] imps rootDir =
           map (\<lambda>imp. \<lparr>change = c,
                         importedSpecifiers = filter (\<lambda>s. s \<in> set ms) (specifiers imp)\<rparr>)
             (filter (\<lambda>imp. resolveImportPath env filePath (source imp) rootDir = Some (changedFile c)
                            \<and> set (specifiers imp) \<inter> set ms \<noteq> {}) imps)
         \<and> (\<forall>imp. set (filter (\<lambda>s. s \<in> set ms) (specifiers imp)) = set (specifiers imp) \<inter> set ms)
         \<and> (access env filePath \<and> isJavaScriptFile env filePath \<and> \<not> shouldIgnoreFile env filePath
              \<and> parseFile env filePath = Some \<lparr>cache_imports = imps, cache_exports = exps\<rparr> \<longrightarrow>
             isAffected (info (buildNode env [c] rootDir filePath)) =
               (if \<exists>imp \<in> set imps.
                     resolveImportPath env filePath (source imp) rootDir = Some (changedFile c)
                     \<and> set (specifiers imp) \<inter> set ms \<noteq> {}
                then Some True else None)
             \<and> (\<forall>imp. imps = [imp]
                     \<and> resolveImportPath env filePath (source imp) rootDir = Some (changedFile c)
                     \<and> set (specifiers imp) \<inter> set ms \<noteq> {} \<longrightarrow>
                   reason (info (buildNode env [c] rootDir filePath)) =
                     Some (''Modified exports from '' @ [CHR 0x27] @ basename env (changedFile c)
                           @ [CHR 0x27] @ '': ''
                           @ join '', '' (filter (\<lambda>s. s \<in> set ms) (specifiers imp)))))"
    (is "?entries \<and> ?inter \<and> ?node")
proof -
  let ?hit = "\<lambda>imp. resolveImportPath env filePath (source imp) rootDir = Some (changedFile c)
                      \<and> set (specifiers imp) \<inter> set ms \<noteq> {}"
  have entries: ?entries
    by (simp add: determineAffectingChanges_concat fine_entries [OF assms])
  have inter: ?inter by auto
  have has: "hasModifiedExports c"
    using assms(2,3) by (simp add: hasModifiedExports_def)
  have node: ?node
  proof (intro impI, elim conjE)
    assume fl: "access env filePath" "isJavaScriptFile env filePath"
      "\<not> shouldIgnoreFile env filePath"
      "parseFile env filePath = Some \<lparr>cache_imports = imps, cache_exports = exps\<rparr>"
    note built = buildNode_parsed [OF fl, of "[c]" rootDir]
    have none: "(determineAffectingChanges env filePath [c] imps rootDir = []) = (\<not> (\<exists>imp \<in> set imps. ?hit imp))"
      by (simp add: entries filter_empty_conv)
    have affected: "isAffected (info (buildNode env [c] rootDir filePath)) =
                      (if \<exists>imp \<in> set imps. ?hit imp then Some True else None)"
      using none by (simp add: built)
    have line: "reason (info (buildNode env [c] rootDir filePath)) =
                  Some (''Modified exports from '' @ [CHR 0x27] @ basename env (changedFile c)
                        @ [CHR 0x27] @ '': ''
                        @ join '', '' (filter (\<lambda>s. s \<in> set ms) (specifiers imp)))"
      if "imps = [imp]" "?hit imp" for imp
    proof -
      have one: "determineAffectingChanges env filePath [c] imps rootDir =
                   [\<lparr>change = c, importedSpecifiers = filter (\<lambda>s. s \<in> set ms) (specifiers imp)\<rparr>]"
        using that entries by simp
      have nonempty: "filter (\<lambda>s. s \<in> set ms) (specifiers imp) \<noteq> []"
        using that(2) by (auto simp: filter_empty_conv)
      show ?thesis
        using nonempty has assms(1)
        by (simp add: built one determineImpactReason_def pushReason_def)
    qed
    show "isAffected (info (buildNode env [c] rootDir filePath)) =
            (if \<exists>imp \<in> set imps. ?hit imp then Some True else None)
          \<and> (\<forall>imp. imps = [imp] \<and> ?hit imp \<longrightarrow>
                reason (info (buildNode env [c] rootDir filePath)) =
                  Some (''Modified exports from '' @ [CHR 0x27] @ basename env (changedFile c)
                        @ [CHR 0x27] @ '': ''
                        @ join '', '' (filter (\<lambda>s. s \<in> set ms) (specifiers imp))))"
      using affected line by blast
  qed
  from entries inter node show ?thesis by blast
qed

theorem fine_grained_modify_witness:
  "isAffected (info (buildNode fineProject [changed ''x.js'' Modify (Some [''foo''])] ''/'' ''y.js'')) = None
   \<and> isAffected (info (buildNode fineProject [changed ''x.js'' Modify (Some [''foo''])] ''/'' ''z.js''))
       = Some True
   \<and> reason (info (buildNode fineProject [changed ''x.js'' Modify (Some [''foo''])] ''/'' ''z.js''))
       = Some (''Modified exports from '' @ [CHR 0x27] @ ''x.js'' @ [CHR 0x27] @ '': foo'')
   \<and> determineAffectingChanges fineProject ''z.js'' [changed ''x.js'' Modify (Some [''foo''])]
         [importing ''x.js'' [''foo'']] ''/''
       = [\<lparr>change = changed ''x.js'' Modify (Some [''foo'']), importedSpecifiers = [''foo'']\<rparr>]
   \<and> determineAffectingChanges fineProject ''y.js'' [changed ''x.js'' Modify (Some [''foo''])]
         [importing ''x.js'' [''bar'']] ''/'' = []"
proof -
  let ?c = "changed ''x.js'' Modify (Some [''foo''])"
  let ?hit = "\<lambda>f imp. resolveImportPath fineProject f (source imp) ''/'' = Some (changedFile ?c)
                        \<and> set (specifiers imp) \<inter> set [''foo''] \<noteq> {}"
  have c: "changeType ?c = Modify" "modifiedExports ?c = Some [''foo'']" "[''foo''] \<noteq> []"
    by (simp_all add: changed_def)
  have y: "access fineProject ''y.js'' \<and> isJavaScriptFile fineProject ''y.js''
           \<and> \<not> shouldIgnoreFile fineProject ''y.js''
           \<and> parseFile fineProject ''y.js''
               = Some \<lparr>cache_imports = [importing ''x.js'' [''bar'']], cache_exports = [''y'']\<rparr>"
    by (simp add: fineProject_def sampleEnv_def access_def parsedAs_def)
  have z: "access fineProject ''z.js'' \<and> isJavaScriptFile fineProject ''z.js''
           \<and> \<not> shouldIgnoreFile fineProject ''z.js''
           \<and> parseFile fineProject ''z.js''
               = Some \<lparr>cache_imports = [importing ''x.js'' [''foo'']], cache_exports = [''z'']\<rparr>"
    by (simp add: fineProject_def sampleEnv_def access_def parsedAs_def)
  have res: "resolveImportPath fineProject f ''x.js'' ''/'' = Some ''x.js''" for f
    by (simp add: fineProject_def sampleEnv_def)
  have base: "basename fineProject ''x.js'' = ''x.js''"
    by (simp add: fineProject_def sampleEnv_def)
  note ty = fine_grained_modify [OF c, of fineProject "''y.js''" "[importing ''x.js'' [''bar'']]" "''/''" "[''y'']"]
  note tz = fine_grained_modify [OF c, of fineProject "''z.js''" "[importing ''x.js'' [''foo'']]" "''/''" "[''z'']"]
  note ny = ty [THEN conjunct2, THEN conjunct2, THEN mp, OF y]
  note nz = tz [THEN conjunct2, THEN conjunct2, THEN mp, OF z]
  have "isAffected (info (buildNode fineProject [?c] ''/'' ''y.js'')) = None"
    using ny [THEN conjunct1] by (simp add: importing_def changed_def res)
  moreover have "isAffected (info (buildNode fineProject [?c] ''/'' ''z.js'')) = Some True"
    using nz [THEN conjunct1] by (simp add: importing_def changed_def res)
  moreover have "reason (info (buildNode fineProject [?c] ''/'' ''z.js''))
       = Some (''Modified exports from '' @ [CHR 0x27] @ ''x.js'' @ [CHR 0x27] @ '': foo'')"
    using nz [THEN conjunct2, THEN spec, of "importing ''x.js'' [''foo'']"]
    by (simp add: importing_def changed_def res base)
  moreover have "determineAffectingChanges fineProject ''z.js'' [?c] [importing ''x.js'' [''foo'']] ''/''
       = [\<lparr>change = ?c, importedSpecifiers = [''foo'']\<rparr>]"
    using tz [THEN conjunct1] by (simp add: importing_def changed_def res)
  moreover have "determineAffectingChanges fineProject ''y.js'' [?c] [importing ''x.js'' [''bar'']] ''/'' = []"
    using ty [THEN conjunct1] by (simp add: importing_def changed_def res)
  ultimately show ?thesis by blast
qed

text \<open>
  C3. \<open>analyzeProject\<close> fails exactly when the entry file is not accessible. When it is,
  the result is a tree rooted at the entry file with no promise left pending, under every
  schedule. The other failures do not surface: a file that is not accessible when its call
  runs becomes an asset leaf; a file the parser rejects becomes a node without imports,
  exports and children; an import that does not resolve, or resolves to an inaccessible
  path, gives no child.
\<close>

theorem analyzeProject_fails_only_on_entry:
  "((\<exists>e. analyzeProject env sched options = Inl e) = (\<not> access env (entryFile options)))
   \<and> (access env (entryFile options) \<longrightarrow>
        (\<exists>i cs. analyzeProject env sched options = Inr (FileNode i cs)
                \<and> nodeFile i = entryFile options \<and> pendings (FileNode i cs) = []))
   \<and> (\<not> access env p \<longrightarrow> buildNode env chs r p = FileNode (emptyNode p Asset) [])
   \<and> (access env p \<and> isJavaScriptFile env p \<and> parseFile env p = None \<longrightarrow>
        nodeImports (info (buildNode env chs r p)) = None
        \<and> nodeExports (info (buildNode env chs r p)) = None
        \<and> children (buildNode env chs r p) = [])
   \<and> (resolveImportPath env p (source imp) r = None \<longrightarrow> childPromise env p r imp = None)
   \<and> (resolveImportPath env p (source imp) r = Some q \<and> \<not> access env q \<longrightarrow>
        childPromise env p r imp = None)"
proof -
  let ?t = "buildDependencyTree env sched (changes options) (cwd env) 0 {} (Pending (entryFile options))"
  have fin: "pendings ?t = []"
    by (rule pendings_buildDependencyTree)
  have root: "promisedFile ?t = entryFile options"
    by (simp add: promisedFile_buildDependencyTree)
  from settled_root [OF fin] obtain i cs where t: "?t = FileNode i cs"
    and nf: "nodeFile i = promisedFile ?t"
    by blast
  from nf root have "nodeFile i = entryFile options"
    by (rule trans)
  moreover have "pendings (FileNode i cs) = []"
    using fin by (simp only: t)
  ultimately have "\<exists>i cs. ?t = FileNode i cs \<and> nodeFile i = entryFile options \<and> pendings (FileNode i cs) = []"
    using t by blast
  then have "access env (entryFile options) \<longrightarrow>
        (\<exists>i cs. analyzeProject env sched options = Inr (FileNode i cs)
                \<and> nodeFile i = entryFile options \<and> pendings (FileNode i cs) = [])"
    by (auto simp: analyzeProject_def Let_def)
  moreover have "(\<exists>e. analyzeProject env sched options = Inl e) = (\<not> access env (entryFile options))"
    by (simp add: analyzeProject_def Let_def)
  moreover have "access env p \<and> isJavaScriptFile env p \<and> parseFile env p = None \<longrightarrow>
        nodeImports (info (buildNode env chs r p)) = None
        \<and> nodeExports (info (buildNode env chs r p)) = None
        \<and> children (buildNode env chs r p) = []"
    by (simp add: buildNode_unparsed)
  moreover have "resolveImportPath env p (source imp) r = None \<longrightarrow> childPromise env p r imp = None"
    "resolveImportPath env p (source imp) r = Some q \<and> \<not> access env q \<longrightarrow>
        childPromise env p r imp = None"
    by (simp_all add: childPromise_def)
  ultimately show ?thesis
    by (simp add: buildNode_inaccessible)
qed

theorem analyzeProject_fails_only_on_entry_witness:
  "analyzeProject fineProject depthFirst \<lparr>entryFile = ''gone.js'', changes = []\<rparr>
     = Inl FailedToAnalyzeProject
   \<and> analyzeProject fineProject depthFirst fineOptions = Inr fineTree
   \<and> pendings fineTree = []
   \<and> buildNode fineProject [] ''/'' ''gone.js'' = FileNode (emptyNode ''gone.js'' Asset) []
   \<and> nodeImports (info (buildNode fineProject [] ''/'' ''bad.js'')) = None
   \<and> nodeExports (info (buildNode fineProject [] ''/'' ''bad.js'')) = None
   \<and> children (buildNode fineProject [] ''/'' ''bad.js'') = []
   \<and> childPromise fineProject ''main.js'' ''/'' (importing ''react'' [''React'']) = None
   \<and> childPromise fineProject ''main.js'' ''/'' (importing ''gone.js'' [''g'']) = None"
proof -
  let ?gone = "\<lparr>entryFile = ''gone.js'', changes = []\<rparr>"
  have gone: "\<not> access fineProject ''gone.js''"
    and bad: "access fineProject ''bad.js'' \<and> isJavaScriptFile fineProject ''bad.js''
              \<and> parseFile fineProject ''bad.js'' = None"
    and main: "access fineProject (entryFile fineOptions)"
    and react: "resolveImportPath fineProject ''main.js'' (source (importing ''react'' [''React''])) ''/'' = None"
    and missing: "resolveImportPath fineProject ''main.js'' (source (importing ''gone.js'' [''g''])) ''/''
                    = Some ''gone.js'' \<and> \<not> access fineProject ''gone.js''"
    by (simp_all add: access_def fineProject_parts fineProject_parse fineOptions_def importing_def)
  note fatal = analyzeProject_fails_only_on_entry [of fineProject depthFirst ?gone, THEN conjunct1]
  note leaf = analyzeProject_fails_only_on_entry [of fineProject depthFirst ?gone "''gone.js''" "[]" "''/''",
      THEN conjunct2, THEN conjunct2, THEN conjunct1, THEN mp, OF gone]
  note unparsed = analyzeProject_fails_only_on_entry [of fineProject depthFirst ?gone "''bad.js''" "[]" "''/''",
      THEN conjunct2, THEN conjunct2, THEN conjunct2, THEN conjunct1, THEN mp, OF bad]
  note external = analyzeProject_fails_only_on_entry [of fineProject depthFirst ?gone "''main.js''" _ "''/''"
      "importing ''react'' [''React'']",
      THEN conjunct2, THEN conjunct2, THEN conjunct2, THEN conjunct2, THEN conjunct1, THEN mp, OF react]
  note skipped = analyzeProject_fails_only_on_entry [of fineProject depthFirst ?gone "''main.js''" _ "''/''"
      "importing ''gone.js'' [''g'']" "''gone.js''",
      THEN conjunct2, THEN conjunct2, THEN conjunct2, THEN conjunct2, THEN conjunct2, THEN mp, OF missing]
  from analyzeProject_fails_only_on_entry [of fineProject depthFirst fineOptions, THEN conjunct2,
      THEN conjunct1, THEN mp, OF main]
  obtain i cs where "analyzeProject fineProject depthFirst fineOptions = Inr (FileNode i cs)"
    and "pendings (FileNode i cs) = []"
    by blast
  then have complete: "pendings fineTree = []"
    by (simp only: fineProject_tree sum.inject)
  have "analyzeProject fineProject depthFirst ?gone = Inl FailedToAnalyzeProject"
  proof -
    from fatal gone obtain e where "analyzeProject fineProject depthFirst ?gone = Inl e"
      by auto
    then show ?thesis by (cases e) simp
  qed
  with complete leaf unparsed external skipped fineProject_tree show ?thesis
    by simp
qed

text \<open>
  C4. Whatever the import graph, cyclic or not, and whatever the schedule,
  \<open>analyzeProject\<close> on an accessible entry returns a finished tree. Each call marks its
  file visited, and a call on a file already visited returns the stub: the same file, the
  type by the file's extension, no children and no other field; so of all the nodes of
  one file in the tree at most one is not the stub. Every node, stub or not, has the type
  its file's extension gives.
\<close>

theorem revisits_yield_stubs:
  assumes "access env (entryFile options)"
  shows "\<exists>t. analyzeProject env sched options = Inr t \<and> pendings t = []
           \<and> (\<forall>f. length (filter (\<lambda>n. nodeFile (info n) = f \<and> n \<noteq> stubNode env f) (nodes t)) \<le> 1)
           \<and> list_all (\<lambda>n. nodeType (info n) = (if isJavaScriptFile env (nodeFile (info n)) then Js else Asset))
                (nodes t)
           \<and> (\<forall>visited f. f \<in> fst (buildDependencyTreeCall env (changes options) (cwd env) visited f)
                \<and> (f \<in> visited \<longrightarrow>
                     buildDependencyTreeCall env (changes options) (cwd env) visited f =
                       (visited,
                        FileNode \<lparr>nodeFile = f,
                                  nodeType = (if isJavaScriptFile env f then Js else Asset),
                                  nodeImports = None, nodeExports = None, isAffected = None,
                                  nodeChangeType = None, reason = None\<rparr> [])
                     \<and> stubNode env f = snd (buildDependencyTreeCall env (changes options) (cwd env) visited f)))"
proof -
  let ?t = "buildDependencyTree env sched (changes options) (cwd env) 0 {} (Pending (entryFile options))"
  let ?full = "\<lambda>f v. nodeFile (fst v) = f \<and> v \<noteq> view (stubNode env f)"
  have t: "analyzeProject env sched options = Inr ?t"
    using assms by (simp add: analyzeProject_def Let_def)
  have settled: "pendings ?t = []"
    by (rule pendings_buildDependencyTree)
  have once: "length (filter (\<lambda>n. nodeFile (info n) = f \<and> n \<noteq> stubNode env f) (nodes ?t)) \<le> 1" for f
  proof -
    have "filter (\<lambda>n. nodeFile (info n) = f \<and> n \<noteq> stubNode env f) (nodes ?t) =
            filter (\<lambda>n. ?full f (view n)) (nodes ?t)"
      by (rule filter_cong [OF refl]) (simp add: view_eq_stub, simp add: view_def)
    moreover have "size (filter_mset (?full f) (views ?t)) \<le> 1"
      using one_full_node [of env sched "changes options" "cwd env" 0 "entryFile options"] by blast
    moreover have "size (filter_mset (?full f) (views ?t)) = length (filter (\<lambda>n. ?full f (view n)) (nodes ?t))"
      by (simp add: views_def filter_mset_image_mset comp_def flip: mset_filter)
    ultimately show ?thesis by simp
  qed
  have typed: "nodeType (info n) = (if isJavaScriptFile env (nodeFile (info n)) then Js else Asset)"
    if "n \<in> set (nodes ?t)" for n
  proof -
    have "nodeType (fst (view n)) = fileTypeOf env (nodeFile (fst (view n)))"
      by (rule every_node [where Q = "\<lambda>v. nodeType (fst v) = fileTypeOf env (nodeFile (fst v))",
            OF assms _ that])
         (simp add: nodeType_call nodeFile_call)
    then show ?thesis by (simp add: view_def fileTypeOf_def)
  qed
  have call: "f \<in> fst (buildDependencyTreeCall env (changes options) (cwd env) visited f)
      \<and> (f \<in> visited \<longrightarrow>
           buildDependencyTreeCall env (changes options) (cwd env) visited f =
             (visited,
              FileNode \<lparr>nodeFile = f,
                        nodeType = (if isJavaScriptFile env f then Js else Asset),
                        nodeImports = None, nodeExports = None, isAffected = None,
                        nodeChangeType = None, reason = None\<rparr> [])
           \<and> stubNode env f = snd (buildDependencyTreeCall env (changes options) (cwd env) visited f))"
    for visited f
    by (simp add: buildDependencyTreeCall_def stubNode_def emptyNode_def fileTypeOf_def)
  from t settled once typed call show ?thesis
    by (simp only: list_all_iff) blast
qed

theorem revisits_yield_stubs_witness:
  "access cycleProject (entryFile cycleOptions)
   \<and> analyzeProject cycleProject depthFirst cycleOptions = Inr cycleTree
   \<and> pendings cycleTree = []
   \<and> length (filter (\<lambda>n. nodeFile (info n) = ''a.js'' \<and> n \<noteq> stubNode cycleProject ''a.js'')
               (nodes cycleTree)) \<le> 1
   \<and> nodes cycleTree ! 2 = stubNode cycleProject ''a.js''
   \<and> buildDependencyTreeCall cycleProject [] ''/'' {''a.js'', ''b.js''} ''a.js''
       = ({''a.js'', ''b.js''}, FileNode (emptyNode ''a.js'' Js) [])"
proof -
  have entry: "access cycleProject (entryFile cycleOptions)"
    by (simp add: access_def cycleProject_parts cycleOptions_def)
  from revisits_yield_stubs [OF entry, of depthFirst]
  obtain t where t: "analyzeProject cycleProject depthFirst cycleOptions = Inr t"
    and settled: "pendings t = []"
    and once: "\<And>f. length (filter (\<lambda>n. nodeFile (info n) = f \<and> n \<noteq> stubNode cycleProject f) (nodes t)) \<le> 1"
    and call: "\<And>visited f. f \<in> visited \<longrightarrow>
        buildDependencyTreeCall cycleProject (changes cycleOptions) (cwd cycleProject) visited f =
          (visited,
           FileNode \<lparr>nodeFile = f,
                     nodeType = (if isJavaScriptFile cycleProject f then Js else Asset),
                     nodeImports = None, nodeExports = None, isAffected = None,
                     nodeChangeType = None, reason = None\<rparr> [])"
    by blast
  from t have tree: "t = cycleTree"
    by (simp add: cycleProject_tree)
  have "nodes cycleTree ! 2 = stubNode cycleProject ''a.js''"
    by (simp add: cycleTree_def cycleProject_nodes)
  moreover have "buildDependencyTreeCall cycleProject [] ''/'' {''a.js'', ''b.js''} ''a.js''
       = ({''a.js'', ''b.js''}, FileNode (emptyNode ''a.js'' Js) [])"
    using call [of "''a.js''" "{''a.js'', ''b.js''}"]
    by (simp add: cycleOptions_def cycleProject_parts emptyNode_def)
  ultimately show ?thesis
    using entry t settled once [of "''a.js''"] unfolding tree by blast
qed

text \<open>
  C5. When a change is an addition, a deletion, or a modification without a non-empty
  list of modified exports, every import that resolves to the changed file is pushed as
  an affecting entry, whatever it imports, and the entry records all the specifiers of the
  import: that is what the callback pushes, and the entry is among the result of
  \<open>determineAffectingChanges\<close> for any change list and import list that hold them.
\<close>

theorem coarse_change_affects_every_importer:
  assumes "changeType c \<noteq> Modify \<or> modifiedExports c = None \<or> modifiedExports c = Some []"
    and "resolveImportPath env filePath (source imp) rootDir = Some (changedFile c)"
  shows "forEachImport env filePath rootDir c acc imp =
           acc @ [\<lparr>change = c, importedSpecifiers = specifiers imp\<rparr>]
         \<and> (c \<in> set chs \<and> imp \<in> set imps \<longrightarrow>
              \<lparr>change = c, importedSpecifiers = specifiers imp\<rparr>
                \<in> set (determineAffectingChanges env filePath chs imps rootDir))"
proof -
  have coarse: "\<not> (changeType c = Modify \<and> hasModifiedExports c)"
    using assms(1) by (auto simp: hasModifiedExports_def)
  have push: "forEachImport env filePath rootDir c acc' imp =
                acc' @ [\<lparr>change = c, importedSpecifiers = specifiers imp\<rparr>]" for acc'
    using coarse assms(2) by (auto simp: forEachImport_def)
  have "\<lparr>change = c, importedSpecifiers = specifiers imp\<rparr>
          \<in> set (determineAffectingChanges env filePath chs imps rootDir)"
    if "c \<in> set chs" "imp \<in> set imps"
    unfolding determineAffectingChanges_concat using that push [of "[]"] by force
  with push show ?thesis by blast
qed

theorem coarse_change_affects_every_importer_witness:
  "changeType (changed ''x.js'' Delete None) = Delete
   \<and> resolveImportPath fineProject ''y.js'' (source (importing ''x.js'' [''bar''])) ''/''
       = Some (changedFile (changed ''x.js'' Delete None))
   \<and> forEachImport fineProject ''y.js'' ''/'' (changed ''x.js'' Delete None) []
        (importing ''x.js'' [''bar''])
       = [\<lparr>change = changed ''x.js'' Delete None, importedSpecifiers = [''bar'']\<rparr>]
   \<and> \<lparr>change = changed ''x.js'' Delete None, importedSpecifiers = [''bar'']\<rparr>
       \<in> set (determineAffectingChanges fineProject ''y.js''
                [changed ''main.js'' Add None, changed ''x.js'' Delete None]
                [importing ''x.js'' [''bar'']] ''/'')"
proof -
  have kind: "changeType (changed ''x.js'' Delete None) \<noteq> Modify
              \<or> modifiedExports (changed ''x.js'' Delete None) = None
              \<or> modifiedExports (changed ''x.js'' Delete None) = Some []"
    by (simp add: changed_def)
  have res: "resolveImportPath fineProject ''y.js'' (source (importing ''x.js'' [''bar''])) ''/''
               = Some (changedFile (changed ''x.js'' Delete None))"
    by (simp add: fineProject_def sampleEnv_def importing_def changed_def)
  show ?thesis
    using coarse_change_affects_every_importer [OF kind res, of "[]"
        "[changed ''main.js'' Add None, changed ''x.js'' Delete None]"
        "[importing ''x.js'' [''bar'']]"] res
    by (simp add: changed_def importing_def)
qed

text \<open>
  C6, as the code has it. Importing a changed file is not enough for the reason to be
  replaced: the import has to be one the classifier counts (see the counterexample below).
  A parsed code file that is in the change set and has an import that contributes an
  affecting entry for some change gets the reason of \<open>determineImpactReason\<close> in place of
  its default reason, is marked affected, and keeps the change type of its own change.
\<close>

theorem changed_importer_reason_replaced:
  assumes "access env p" and "isJavaScriptFile env p" and "\<not> shouldIgnoreFile env p"
    and "parseFile env p = Some parsed"
    and "findChange chs p = Some c"
    and "c' \<in> set chs" and "imp \<in> set (cache_imports parsed)"
    and "affectingEntry env p r c' imp \<noteq> None"
  shows "reason (info (buildNode env chs r p)) =
           Some (determineImpactReason env p
                   (determineAffectingChanges env p chs (cache_imports parsed) r)
                   (cache_imports parsed))
         \<and> nodeChangeType (info (buildNode env chs r p)) = Some (changeType c)
         \<and> isAffected (info (buildNode env chs r p)) = Some True"
proof -
  have "classify env p r chs (cache_imports parsed) \<noteq> []"
    using assms(6-8) by (auto simp: classify_empty)
  then have "determineAffectingChanges env p chs (cache_imports parsed) r \<noteq> []"
    by (simp add: determineAffectingChanges_classify)
  then show ?thesis
    using assms(5) by (simp add: buildNode_parsed [OF assms(1-4)])
qed

theorem changed_importer_reason_replaced_witness:
  "reason (info (buildNode fineProject
        [changed ''z.js'' Modify None, changed ''x.js'' Modify (Some [''foo''])] ''/'' ''z.js''))
     = Some (''Modified exports from '' @ quoted ''x.js'' @ '': foo'')
   \<and> nodeChangeType (info (buildNode fineProject
        [changed ''z.js'' Modify None, changed ''x.js'' Modify (Some [''foo''])] ''/'' ''z.js''))
     = Some Modify
   \<and> isAffected (info (buildNode fineProject
        [changed ''z.js'' Modify None, changed ''x.js'' Modify (Some [''foo''])] ''/'' ''z.js''))
     = Some True"
proof -
  let ?chs = "[changed ''z.js'' Modify None, changed ''x.js'' Modify (Some [''foo''])]"
  let ?imp = "importing ''x.js'' [''foo'']"
  have z: "access fineProject ''z.js''" "isJavaScriptFile fineProject ''z.js''"
    "\<not> shouldIgnoreFile fineProject ''z.js''"
    "parseFile fineProject ''z.js'' = Some \<lparr>cache_imports = [?imp], cache_exports = [''z'']\<rparr>"
    by (simp_all add: access_def fineProject_parts fineProject_parse parsedAs_def)
  have own: "findChange ?chs ''z.js'' = Some (changed ''z.js'' Modify None)"
    by (simp add: findChange_def changed_def)
  have other: "changed ''x.js'' Modify (Some [''foo'']) \<in> set ?chs"
    "?imp \<in> set (cache_imports \<lparr>cache_imports = [?imp], cache_exports = [''z'']\<rparr>)"
    "affectingEntry fineProject ''z.js'' ''/'' (changed ''x.js'' Modify (Some [''foo''])) ?imp \<noteq> None"
    by (simp_all add: affectingEntry_def fineProject_parts importing_def changed_def)
  have entries: "classify fineProject ''z.js'' ''/'' ?chs [?imp] =
      [\<lparr>change = changed ''x.js'' Modify (Some [''foo'']), importedSpecifiers = [''foo'']\<rparr>]"
    by (simp add: classify_def List.map_filter_simps affectingEntry_def fineProject_parts
          importing_def changed_def)
  show ?thesis
    using changed_importer_reason_replaced [OF z own other]
    unfolding FileCache.simps determineAffectingChanges_classify entries determineImpactReason_lines
    by (simp add: reasonLine_def changed_def fineProject_parts)
qed

text \<open>
  C6 as stated fails when the imported file was modified in exports that the importer
  does not use: \<open>y.js\<close> is in the change set and imports \<open>bar\<close> from \<open>x.js\<close>, which
  is in the change set with \<open>modifiedExports = [foo]\<close>; the reason of \<open>y.js\<close> stays
  the default one.
\<close>

theorem changed_importer_reason_counterexample:
  "findChange [changed ''y.js'' Modify None, changed ''x.js'' Modify (Some [''foo''])] ''y.js''
     = Some (changed ''y.js'' Modify None)
   \<and> parseFile fineProject ''y.js'' = parsedAs [importing ''x.js'' [''bar'']] [''y'']
   \<and> resolveImportPath fineProject ''y.js'' (source (importing ''x.js'' [''bar''])) ''/''
     = Some (changedFile (changed ''x.js'' Modify (Some [''foo''])))
   \<and> reason (info (buildNode fineProject
        [changed ''y.js'' Modify None, changed ''x.js'' Modify (Some [''foo''])] ''/'' ''y.js''))
     = Some ''File was modifyd''
   \<and> reason (info (buildNode fineProject
        [changed ''y.js'' Modify None, changed ''x.js'' Modify (Some [''foo''])] ''/'' ''y.js''))
     \<noteq> Some (determineImpactReason fineProject ''y.js''
               (determineAffectingChanges fineProject ''y.js''
                  [changed ''y.js'' Modify None, changed ''x.js'' Modify (Some [''foo''])]
                  [importing ''x.js'' [''bar'']] ''/'')
               [importing ''x.js'' [''bar'']])"
proof -
  let ?chs = "[changed ''y.js'' Modify None, changed ''x.js'' Modify (Some [''foo''])]"
  have y: "access fineProject ''y.js''" "isJavaScriptFile fineProject ''y.js''"
    "\<not> shouldIgnoreFile fineProject ''y.js''"
    "parseFile fineProject ''y.js''
       = Some \<lparr>cache_imports = [importing ''x.js'' [''bar'']], cache_exports = [''y'']\<rparr>"
    by (simp_all add: access_def fineProject_parts fineProject_parse parsedAs_def)
  have entries: "classify fineProject ''y.js'' ''/'' ?chs [importing ''x.js'' [''bar'']] = []"
    by (simp add: classify_def List.map_filter_simps affectingEntry_def fineProject_parts
          importing_def changed_def)
  note entries' = entries [unfolded changed_def importing_def]
  show ?thesis
    by (simp add: buildNode_parsed [OF y] determineAffectingChanges_classify entries'
          determineImpactReason_lines findChange_def changed_def importing_def
          fineProject_parts fineProject_parse)
qed




text \<open>
  C8. In every node of every tree that \<open>analyzeProject\<close> returns, under every schedule,
  the files of the children are, in the order of the node's \<open>imports\<close>, those of the
  imports that resolve to an accessible path, one child for each; an import that does not
  resolve, or resolves to an inaccessible path, leaves no child and no gap. A node without
  \<open>imports\<close> (a stub, an asset, a file that was ignored or not parsed) has no children.
  Every child is itself a finished node of the tree.
\<close>

theorem children_follow_imports:
  assumes "analyzeProject env sched options = Inr t" and "n \<in> set (nodes t)"
  shows "map (\<lambda>c. nodeFile (info c)) (children n) =
           (case nodeImports (info n) of
              None \<Rightarrow> []
            | Some imps \<Rightarrow> List.map_filter (importTarget env (nodeFile (info n)) (cwd env)) imps)
         \<and> list_all (\<lambda>c. c \<in> set (nodes t)) (children n)"
proof -
  from assms(1) have entry: "access env (entryFile options)"
    and t: "t = buildDependencyTree env sched (changes options) (cwd env) 0 {} (Pending (entryFile options))"
    by (simp_all add: analyzeProject_Inr)
  let ?Q = "\<lambda>v. snd v = (case nodeImports (fst v) of None \<Rightarrow> []
              | Some imps \<Rightarrow> List.map_filter (importTarget env (nodeFile (fst v)) (cwd env)) imps)"
  have "?Q (view n)"
    by (rule every_node [where Q = ?Q, OF entry _ assms(2) [unfolded t]]) (rule children_call)
  then have files: "map promisedFile (children n) =
      (case nodeImports (info n) of None \<Rightarrow> []
       | Some imps \<Rightarrow> List.map_filter (importTarget env (nodeFile (info n)) (cwd env)) imps)"
    by (simp add: view_def cong: option.case_cong)
  have settled: "pendings t = []"
    by (simp add: t pendings_buildDependencyTree)
  have node: "\<exists>i cs. c = FileNode i cs" if "c \<in> set (children n)" for c
    using settled assms(2) that by (rule settled_children)
  have "map (\<lambda>c. nodeFile (info c)) (children n) = map promisedFile (children n)"
    by (rule map_cong) (auto dest: node)
  moreover have "c \<in> set (nodes t)" if "c \<in> set (children n)" for c
    using assms(2) that node [OF that] by (auto intro: nodes_child)
  ultimately show ?thesis using files by (simp add: list_all_iff)
qed

theorem children_follow_imports_witness:
  "analyzeProject fineProject depthFirst fineOptions = Inr fineTree
   \<and> nodeImports (info fineTree)
       = Some [importing ''y.js'' [''y''], importing ''react'' [''React''],
               importing ''gone.js'' [''g''], importing ''logo.png'' [],
               importing ''z.js'' [''z'']]
   \<and> map (\<lambda>c. nodeFile (info c)) (children fineTree) = [''y.js'', ''logo.png'', ''z.js'']"
proof -
  have root: "fineTree \<in> set (nodes fineTree)"
    by (simp add: fineTree_def)
  have imps: "nodeImports (info fineTree)
       = Some [importing ''y.js'' [''y''], importing ''react'' [''React''],
               importing ''gone.js'' [''g''], importing ''logo.png'' [],
               importing ''z.js'' [''z'']]"
    and name: "nodeFile (info fineTree) = ''main.js''"
    by (simp_all add: fineTree_def parsedNode_def emptyNode_def)
  have "map (\<lambda>c. nodeFile (info c)) (children fineTree) = [''y.js'', ''logo.png'', ''z.js'']"
    using children_follow_imports [OF fineProject_tree root, THEN conjunct1]
    unfolding imps name
    by (simp add: importTarget_def access_def fineProject_parts importing_def)
  with imps fineProject_tree show ?thesis by simp
qed

text \<open>
  C9. In every node of every tree that \<open>analyzeProject\<close> returns, under every schedule
  of the concurrent calls, \<open>isAffected\<close> is absent or true: no statement assigns false.
\<close>

theorem isAffected_never_false:
  assumes "analyzeProject env sched options = Inr t" and "n \<in> set (nodes t)"
  shows "isAffected (info n) = None \<or> isAffected (info n) = Some True"
proof -
  from assms(1) have entry: "access env (entryFile options)"
    and t: "t = buildDependencyTree env sched (changes options) (cwd env) 0 {} (Pending (entryFile options))"
    by (simp_all add: analyzeProject_Inr)
  have "isAffected (fst (view n)) \<noteq> Some False"
  proof (rule every_node [OF entry _ assms(2) [unfolded t]])
    fix visited p
    show "isAffected (fst (view (snd (buildDependencyTreeCall env (changes options) (cwd env) visited p))))
            \<noteq> Some False"
      by (simp add: view_def isAffected_call)
  qed
  then show ?thesis by (cases "isAffected (info n)") (auto simp: view_def)
qed

theorem isAffected_never_false_witness:
  "analyzeProject fineProject depthFirst fineOptions = Inr fineTree
   \<and> list_all (\<lambda>n. isAffected (info n) = None \<or> isAffected (info n) = Some True) (nodes fineTree)
   \<and> isAffected (info (nodes fineTree ! 4)) = Some True"
proof -
  have "isAffected (info n) = None \<or> isAffected (info n) = Some True"
    if "n \<in> set (nodes fineTree)" for n
    using fineProject_tree that by (rule isAffected_never_false)
  then have "list_all (\<lambda>n. isAffected (info n) = None \<or> isAffected (info n) = Some True) (nodes fineTree)"
    by (simp only: list_all_iff) blast
  moreover have "isAffected (info (nodes fineTree ! 4)) = Some True"
    by (simp add: fineTree_def)
  ultimately show ?thesis using fineProject_tree by simp
qed



end
